theory Spec2Isabelle
  imports Main "HOL-Library.Word"
begin

section \<open>Go strings, runes and the library functions the program calls\<close>

text \<open>
  A Go string is a sequence of bytes: \<open>string\<close> (a \<open>char list\<close>, one \<open>char\<close> per byte).
  \<open>int\<close> is taken to be 64 bits wide (the conversion \<open>int(n)\<close> of an \<open>int64\<close> is then
  the identity) and is a \<open>64 word\<close>, read as two's complement by \<open>sint\<close>.
\<close>

type_synonym go_int = "64 word"

text \<open>Errors are values. \<open>ErrorString m\<close> is \<open>errors.New(m)\<close>; \<open>NumError s k\<close> is the
  \<open>*strconv.NumError\<close> of \<open>strconv.ParseInt\<close> on the text \<open>s\<close>; \<open>ExitError n\<close> is the
  \<open>*exec.ExitError\<close> of a process that exited with status \<open>n\<close> (its message is
  "exit status n"); \<open>OtherError m\<close> is any other error of the operating system.\<close>

datatype num_err = ErrSyntax | ErrRange

datatype go_error =
    ErrorString string
  | NumError string num_err
  | ExitError nat
  | OtherError string

text \<open>A call either panics (an index out of range, a nil dereference), returns a
  non-nil error, or returns its value. The \<open>semver\<close> that \<open>parseSemver\<close> and \<open>release\<close>
  return next to a non-nil error is read by no caller and is left out.\<close>

datatype 'a outcome = Panic | Err go_error | Ok 'a

definition is_digit :: "char \<Rightarrow> bool" where
  "is_digit c = (48 \<le> (of_char c :: nat) \<and> (of_char c :: nat) \<le> 57)"

text \<open>\<open>strings.SplitN(s, sep, n)\<close> for a one-byte separator and \<open>n \<ge> 0\<close>: at most \<open>n\<close>
  pieces, the last one the unsplit rest. \<open>strings.Split(s, sep)\<close> is
  \<open>SplitN\<close> with \<open>n = Count(s, sep) + 1\<close>.\<close>

fun SplitN :: "string \<Rightarrow> char \<Rightarrow> nat \<Rightarrow> string list" where
  "SplitN s sep 0 = []"
| "SplitN s sep (Suc 0) = [s]"
| "SplitN s sep (Suc (Suc n)) =
     (if sep \<in> set s
      then takeWhile (\<lambda>c. c \<noteq> sep) s # SplitN (tl (dropWhile (\<lambda>c. c \<noteq> sep) s)) sep (Suc n)
      else [s])"

definition Split :: "string \<Rightarrow> char \<Rightarrow> string list" where
  "Split s sep = SplitN s sep (count_list s sep + 1)"

text \<open>\<open>strings.TrimSuffix(s, "\n")\<close>.\<close>

definition TrimSuffix_nl :: "string \<Rightarrow> string" where
  "TrimSuffix_nl s = (if s \<noteq> [] \<and> last s = CHR 0x0A then butlast s else s)"

subsection \<open>strconv.ParseInt(s, 10, 64) and the verb %d\<close>

text \<open>The digit loop of \<open>strconv.ParseUint\<close> in base 10 and 64 bits: the first byte
  that is not a digit is a syntax error, the first step that leaves the range of
  \<open>uint64\<close> a range error.\<close>

fun uint_loop :: "nat \<Rightarrow> string \<Rightarrow> num_err + nat" where
  "uint_loop n [] = Inr n"
| "uint_loop n (c # cs) =
     (if \<not> is_digit c then Inl ErrSyntax
      else if 2 ^ 64 \<le> n * 10 + (of_char c - 48) then Inl ErrRange
      else uint_loop (n * 10 + (of_char c - 48)) cs)"

definition ParseUint :: "string \<Rightarrow> num_err + nat" where
  "ParseUint s = (if s = [] then Inl ErrSyntax else uint_loop 0 s)"

definition ParseInt :: "string \<Rightarrow> go_error + go_int" where
  "ParseInt s0 =
     (if s0 = [] then Inl (NumError s0 ErrSyntax)
      else
        let neg = (hd s0 = CHR ''-'');
            s = (if hd s0 = CHR ''+'' \<or> hd s0 = CHR ''-'' then tl s0 else s0)
        in case ParseUint s of
             Inl ErrSyntax \<Rightarrow> Inl (NumError s0 ErrSyntax)
           | r \<Rightarrow>
               let un = (case r of Inr n \<Rightarrow> n | Inl _ \<Rightarrow> 2 ^ 64 - 1)
               in if \<not> neg \<and> 2 ^ 63 \<le> un then Inl (NumError s0 ErrRange)
                  else if neg \<and> 2 ^ 63 < un then Inl (NumError s0 ErrRange)
                  else Inr (if neg then - of_nat un else of_nat un))"

fun show_nat :: "nat \<Rightarrow> string" where
  "show_nat n =
     (if n < 10 then [char_of (48 + n)]
      else show_nat (n div 10) @ [char_of (48 + n mod 10)])"

declare show_nat.simps [simp del]

definition show_int :: "int \<Rightarrow> string" where
  "show_int i = (if i < 0 then CHR ''-'' # show_nat (nat (- i)) else show_nat (nat i))"

subsection \<open>Ranging over a string, and string([]rune)\<close>

text \<open>\<open>for _, r := range s\<close> decodes UTF-8: a byte below 0x80 is its own rune; a
  well-formed sequence of two to four bytes is one rune; anything else gives
  \<open>RuneError\<close> and advances by one byte. Runes are code points, as \<open>nat\<close>. The masks and
  shifts of the decoder are written as \<open>mod\<close> and multiplication.\<close>

definition RuneError :: nat where
  "RuneError = 0xFFFD"

definition cont_byte :: "nat \<Rightarrow> bool" where
  "cont_byte b = (0x80 \<le> b \<and> b \<le> 0xBF)"

fun decoderune :: "nat list \<Rightarrow> nat \<times> nat" where
  "decoderune [] = (RuneError, 1)"
| "decoderune (b0 # bs) =
     (if 0xC0 \<le> b0 \<and> b0 < 0xE0 then
        (case bs of
           b1 # _ \<Rightarrow>
             if cont_byte b1 \<and> 0x7F < (b0 mod 32) * 64 + b1 mod 64
             then ((b0 mod 32) * 64 + b1 mod 64, 2) else (RuneError, 1)
         | _ \<Rightarrow> (RuneError, 1))
      else if 0xE0 \<le> b0 \<and> b0 < 0xF0 then
        (case bs of
           b1 # b2 # _ \<Rightarrow>
             let r = (b0 mod 16) * 4096 + (b1 mod 64) * 64 + b2 mod 64
             in if cont_byte b1 \<and> cont_byte b2 \<and> 0x7FF < r \<and> \<not> (0xD800 \<le> r \<and> r \<le> 0xDFFF)
                then (r, 3) else (RuneError, 1)
         | _ \<Rightarrow> (RuneError, 1))
      else if 0xF0 \<le> b0 \<and> b0 < 0xF8 then
        (case bs of
           b1 # b2 # b3 # _ \<Rightarrow>
             let r = (b0 mod 8) * 262144 + (b1 mod 64) * 4096 + (b2 mod 64) * 64 + b3 mod 64
             in if cont_byte b1 \<and> cont_byte b2 \<and> cont_byte b3 \<and> 0xFFFF < r \<and> r \<le> 0x10FFFF
                then (r, 4) else (RuneError, 1)
         | _ \<Rightarrow> (RuneError, 1))
      else (RuneError, 1))"

fun runes :: "string \<Rightarrow> nat list" where
  "runes [] = []"
| "runes (c # cs) =
     (if (of_char c :: nat) < 0x80 then of_char c # runes cs
      else fst (decoderune (map of_char (c # cs)))
             # runes (drop (snd (decoderune (map of_char (c # cs))) - 1) cs))"

fun encoderune :: "nat \<Rightarrow> string" where
  "encoderune r =
     (if r \<le> 0x7F then [char_of r]
      else if r \<le> 0x7FF then [char_of (0xC0 + r div 64), char_of (0x80 + r mod 64)]
      else if 0x10FFFF < r \<or> (0xD800 \<le> r \<and> r \<le> 0xDFFF) then
        [char_of (0xE0 + RuneError div 4096), char_of (0x80 + RuneError div 64 mod 64),
         char_of (0x80 + RuneError mod 64)]
      else if r \<le> 0xFFFF then
        [char_of (0xE0 + r div 4096), char_of (0x80 + r div 64 mod 64), char_of (0x80 + r mod 64)]
      else
        [char_of (0xF0 + r div 262144), char_of (0x80 + r div 4096 mod 64),
         char_of (0x80 + r div 64 mod 64), char_of (0x80 + r mod 64)])"

definition string_of_runes :: "nat list \<Rightarrow> string" where
  "string_of_runes rs = concat (map encoderune rs)"

section \<open>The semver model\<close>

record semver =
  major :: go_int
  minor :: go_int
  patch :: go_int
  prerelease :: string
  build :: string

text \<open>The zero value \<open>var sem semver\<close>.\<close>

definition zero_semver :: semver where
  "zero_semver = \<lparr>major = 0, minor = 0, patch = 0, prerelease = [], build = []\<rparr>"

text \<open>\<open>type version uint\<close> with the constants \<open>patch\<close>, \<open>minor\<close> and \<open>major\<close>
  (\<open>iota + 1\<close>); the constants are suffixed, the fields of \<open>semver\<close> keep the names.\<close>

type_synonym version = nat

definition patch_version :: version where "patch_version = 1"
definition minor_version :: version where "minor_version = 2"
definition major_version :: version where "major_version = 3"

definition errInvalidSemver :: go_error where
  "errInvalidSemver = ErrorString ''invalid semver''"

text \<open>The loop over \<open>parts\<close>. In the third part the inner loop cuts the part at its
  first rune that is not a digit; a digit is one byte and no rune of several bytes is
  a digit, so that is the first byte that is not a digit.\<close>

fun parse_parts :: "nat \<Rightarrow> string list \<Rightarrow> semver \<Rightarrow> string \<Rightarrow> go_error + (semver \<times> string)" where
  "parse_parts i [] sem tail = Inr (sem, tail)"
| "parse_parts i (part # rest) sem tail =
     (let part' = (if i = 2 then takeWhile is_digit part else part);
          tail' = (if i = 2 \<and> \<not> list_all is_digit part then dropWhile is_digit part else tail)
      in case ParseInt part' of
           Inl e \<Rightarrow> Inl e
         | Inr n \<Rightarrow>
             parse_parts (i + 1) rest
               (if i = 0 then sem\<lparr>major := n\<rparr>
                else if i = 1 then sem\<lparr>minor := n\<rparr>
                else if i = 2 then sem\<lparr>patch := n\<rparr>
                else sem)
               tail')"

text \<open>The loop over the runes of \<open>tail\<close>; \<open>buf\<close> is \<open>nil\<close>, \<open>&prebuf\<close> or \<open>&buildbuf\<close>, and
  appending through a nil \<open>buf\<close> panics.\<close>

datatype bufptr = NilBuf | PreBuf | BuildBuf

fun scan_tail :: "nat list \<Rightarrow> bufptr \<Rightarrow> nat list \<Rightarrow> nat list \<Rightarrow> (nat list \<times> nat list) option" where
  "scan_tail [] buf prebuf buildbuf = Some (prebuf, buildbuf)"
| "scan_tail (r # rs) buf prebuf buildbuf =
     (if r = 45 then scan_tail rs PreBuf prebuf buildbuf
      else if r = 43 then scan_tail rs BuildBuf prebuf buildbuf
      else case buf of
             NilBuf \<Rightarrow> None
           | PreBuf \<Rightarrow> scan_tail rs buf (prebuf @ [r]) buildbuf
           | BuildBuf \<Rightarrow> scan_tail rs buf prebuf (buildbuf @ [r]))"

definition parseSemver :: "string \<Rightarrow> semver outcome" where
  "parseSemver s0 =
     (if s0 = [] then Panic
      else
        let s = (if hd s0 = CHR ''v'' then tl s0 else s0)
        in case parse_parts 0 (SplitN s CHR ''.'' 3) zero_semver [] of
             Inl e \<Rightarrow> Err e
           | Inr (sem, tail) \<Rightarrow>
               if tail = [] then Ok sem
               else if hd tail \<noteq> CHR ''-'' \<and> hd tail \<noteq> CHR ''+'' then Err errInvalidSemver
               else (case scan_tail (runes tail) NilBuf [] [] of
                       None \<Rightarrow> Panic
                     | Some (prebuf, buildbuf) \<Rightarrow>
                         Ok (sem\<lparr>prerelease := string_of_runes prebuf,
                                 build := string_of_runes buildbuf\<rparr>)))"

definition bump :: "version \<Rightarrow> semver \<Rightarrow> semver" where
  "bump v sem0 =
     (let sem = sem0\<lparr>prerelease := [], build := []\<rparr>
      in if v = patch_version then sem\<lparr>patch := patch sem + 1\<rparr>
         else if v = minor_version then sem\<lparr>patch := 0, minor := minor sem + 1\<rparr>
         else if v = major_version then sem\<lparr>patch := 0, minor := 0, major := major sem + 1\<rparr>
         else sem)"

definition String :: "semver \<Rightarrow> string" where
  "String sem =
     (let s = ''v'' @ show_int (sint (major sem)) @ ''.'' @ show_int (sint (minor sem)) @ ''.''
                @ show_int (sint (patch sem));
          s1 = (if prerelease sem \<noteq> [] then s @ ''-'' @ prerelease sem else s)
      in if build sem \<noteq> [] then s1 @ ''+'' @ build sem else s1)"

section \<open>The outside world: processes, files and the editor\<close>

text \<open>What a process did when \<open>cmd.Run()\<close> returned: the error of \<open>Run\<close> (\<open>None\<close> is
  \<open>nil\<close>; a status other than 0 is an \<open>ExitError\<close>), and what it wrote to its standard
  output and to its standard error.\<close>

record proc =
  run_err :: "go_error option"
  out :: string
  errout :: string

text \<open>Everything \<open>release\<close> reads from outside: \<open>os.CreateTemp\<close> for the notes and for the
  changelog (an error, or the name of the file), the variable \<open>EDITOR\<close> and the run of
  the editor, the lines \<open>sc.Text()\<close> yields from the edited file with the final
  \<open>sc.Err()\<close>, and what \<open>git\<close> does on each list of arguments.\<close>

record world =
  notes_temp :: "go_error + string"
  changelog_temp :: "go_error + string"
  EDITOR :: string
  editor_run :: "go_error option"
  scanned :: "string list"
  scan_err :: "go_error option"
  git_run :: "string list \<Rightarrow> proc"

definition git :: "string list \<Rightarrow> world \<Rightarrow> go_error + string" where
  "git a w =
     (case run_err (git_run w a) of
        Some err \<Rightarrow> Inl (ErrorString (hd (Split (errout (git_run w a)) (CHR 0x0A))))
      | None \<Rightarrow> Inr (out (git_run w a)))"

definition openInEditor :: "string \<Rightarrow> world \<Rightarrow> go_error option" where
  "openInEditor name w =
     (if EDITOR w = [] then Some (ErrorString ''EDITOR not set'') else editor_run w)"

text \<open>\<open>gitshortlog\<close> returns the file that received the standard output; the model
  returns its content.\<close>

definition gitshortlog :: "string \<Rightarrow> world \<Rightarrow> go_error + string" where
  "gitshortlog revrange w =
     (case changelog_temp w of
        Inl err \<Rightarrow> Inl err
      | Inr f \<Rightarrow>
          (case run_err (git_run w [''shortlog'', revrange]) of
             Some err \<Rightarrow>
               Inl (ErrorString (hd (Split (errout (git_run w [''shortlog'', revrange])) (CHR 0x0A))))
           | None \<Rightarrow> Inr (out (git_run w [''shortlog'', revrange]))))"

definition gittag :: "string \<Rightarrow> string \<Rightarrow> world \<Rightarrow> go_error option" where
  "gittag tag tagfile w = run_err (git_run w [''tag'', ''-a'', tag, ''-eF'', tagfile])"

section \<open>The release pipeline\<close>

text \<open>The loop \<open>for sc.Scan()\<close> of \<open>release\<close>: a line that starts with \<open>#\<close> is skipped,
  every other line is written to \<open>buf\<close> by \<open>Fprintln\<close>, with a newline.\<close>

fun notes_loop :: "string list \<Rightarrow> string \<Rightarrow> string" where
  "notes_loop [] buf = buf"
| "notes_loop (line # rest) buf =
     (if length line > 0 \<and> line ! 0 = CHR ''#'' then notes_loop rest buf
      else notes_loop rest (buf @ line @ [CHR 0x0A]))"

text \<open>From \<open>revrange := "HEAD"\<close> to the end of \<open>if err == nil { ... }\<close>: the previous
  version and the range of the changelog.\<close>

definition previous_version :: "world \<Rightarrow> (semver \<times> string) outcome" where
  "previous_version w =
     (case git [''describe'', ''--abbrev=0''] w of
        Inr prev0 \<Rightarrow>
          (let prev = TrimSuffix_nl prev0
           in case parseSemver prev of
                Panic \<Rightarrow> Panic
              | Err err \<Rightarrow> Err err
              | Ok sem \<Rightarrow> Ok (sem, prev @ ''..HEAD''))
      | Inl _ \<Rightarrow> Ok (zero_semver, ''HEAD''))"

text \<open>Up to the end of \<open>if info { ... }\<close>: the bump, the prerelease of the request and
  the build metadata.\<close>

definition resolve_version :: "version \<Rightarrow> bool \<Rightarrow> string \<Rightarrow> world \<Rightarrow> (semver \<times> string) outcome" where
  "resolve_version next info pre w =
     (case previous_version w of
        Panic \<Rightarrow> Panic
      | Err err \<Rightarrow> Err err
      | Ok (sem0, revrange) \<Rightarrow>
          (let sem = (bump next sem0)\<lparr>prerelease := pre\<rparr>
           in if info then
                (let r = git [''log'', ''-n'', ''1'', ''--format=%h''] w;
                     b = (case r of Inr s \<Rightarrow> s | Inl _ \<Rightarrow> []);
                     sem1 = sem\<lparr>build := (if length b > 0 then take (length b - 1) b else b)\<rparr>
                 in case r of Inl err \<Rightarrow> Err err | Inr _ \<Rightarrow> Ok (sem1, revrange))
              else Ok (sem, revrange)))"

definition release :: "version \<Rightarrow> bool \<Rightarrow> string \<Rightarrow> world \<Rightarrow> semver outcome" where
  "release next info pre w =
     (case notes_temp w of
        Inl err \<Rightarrow> Err err
      | Inr f \<Rightarrow>
          (case openInEditor f w of
             Some err \<Rightarrow> Err err
           | None \<Rightarrow>
               (case scan_err w of
                  Some err \<Rightarrow> Err err
                | None \<Rightarrow>
                    (case resolve_version next info pre w of
                       Panic \<Rightarrow> Panic
                     | Err err \<Rightarrow> Err err
                     | Ok (sem, revrange) \<Rightarrow>
                         (case gitshortlog revrange w of
                            Inl err \<Rightarrow> Err err
                          | Inr changelog \<Rightarrow>
                              (case gittag (String sem) f w of
                                 Some err \<Rightarrow> Err err
                               | None \<Rightarrow>
                                   (case git [''archive'', ''-o'', String sem @ ''.tar.gz'', String sem] w of
                                      Inl err \<Rightarrow> Err err
                                    | Inr _ \<Rightarrow> Ok sem)))))))"

section \<open>Example worlds\<close>

text \<open>A repository without any tag, where \<open>git describe\<close> fails and every other call of
  \<open>git\<close> succeeds; \<open>git log\<close> prints an abbreviated hash and a newline.\<close>

definition describe_failure :: proc where
  "describe_failure =
     \<lparr>run_err = Some (ExitError 128), out = [],
      errout = ''fatal: No names found, cannot describe anything.'' @ [CHR 0x0A]\<rparr>"

definition first_release_world :: world where
  "first_release_world =
     \<lparr>notes_temp = Inr ''/tmp/release-1'', changelog_temp = Inr ''/tmp/release-changelog-2'',
      EDITOR = ''vi'', editor_run = None,
      scanned = [''Initial commit''], scan_err = None,
      git_run = (\<lambda>a. if a = [''describe'', ''--abbrev=0''] then describe_failure
                      else if a = [''log'', ''-n'', ''1'', ''--format=%h'']
                      then \<lparr>run_err = None, out = ''1a2b3c4'' @ [CHR 0x0A], errout = []\<rparr>
                      else \<lparr>run_err = None, out = [], errout = []\<rparr>)\<rparr>"

text \<open>A directory that is no repository: every call of \<open>git\<close> fails with status 128 and
  two lines on its standard error.\<close>

definition no_repository_world :: world where
  "no_repository_world =
     \<lparr>notes_temp = Inr ''/tmp/release-1'', changelog_temp = Inr ''/tmp/release-changelog-2'',
      EDITOR = ''vi'', editor_run = None,
      scanned = [], scan_err = None,
      git_run = (\<lambda>a. \<lparr>run_err = Some (ExitError 128), out = [],
                          errout = ''fatal: not a git repository'' @ [CHR 0x0A] @
                                   ''Stopping at filesystem boundary'' @ [CHR 0x0A]\<rparr>)\<rparr>"

text \<open>The first world again, but \<open>git describe\<close> fails for want of memory, not for want
  of a tag.\<close>

definition out_of_memory_world :: world where
  "out_of_memory_world =
     first_release_world\<lparr>git_run :=
       (\<lambda>a. if a = [''describe'', ''--abbrev=0'']
            then \<lparr>run_err = Some (ExitError 128), out = [],
                  errout = ''fatal: Out of memory, malloc failed'' @ [CHR 0x0A]\<rparr>
            else git_run first_release_world a)\<rparr>"


section \<open>Well-formed version strings\<close>

text \<open>The version strings of the round-trip law, in the words of the specification: an
  optional \<open>v\<close>, three numeric segments separated by dots, then an optional \<open>-\<close> with
  a prerelease, an optional \<open>+\<close> with a build, or both in that order. A prerelease
  or a build is a non-empty sequence of ASCII characters other than the two
  separators \<open>-\<close> and \<open>+\<close>. The canonical form of \<open>s\<close> is \<open>v\<close> followed by \<open>s\<close> without
  its own \<open>v\<close>.\<close>

definition strip_v :: "string \<Rightarrow> string" where
  "strip_v s = (if s \<noteq> [] \<and> hd s = CHR ''v'' then tl s else s)"

definition canonical_form :: "string \<Rightarrow> string" where
  "canonical_form s = CHR ''v'' # strip_v s"

definition qualifier :: "string \<Rightarrow> bool" where
  "qualifier q =
     (q \<noteq> [] \<and> list_all (\<lambda>c. (of_char c :: nat) < 128 \<and> c \<noteq> CHR ''-'' \<and> c \<noteq> CHR ''+'') q)"

definition well_formed_tail :: "string \<Rightarrow> bool" where
  "well_formed_tail q =
     (q = [] \<or>
      (q \<noteq> [] \<and> hd q = CHR ''-'' \<and> qualifier (takeWhile (\<lambda>c. c \<noteq> CHR ''+'') (tl q)) \<and>
         (dropWhile (\<lambda>c. c \<noteq> CHR ''+'') (tl q) = [] \<or>
          qualifier (tl (dropWhile (\<lambda>c. c \<noteq> CHR ''+'') (tl q))))) \<or>
      (q \<noteq> [] \<and> hd q = CHR ''+'' \<and> qualifier (tl q)))"

text \<open>The three numeric segments of a version string and what follows them.\<close>

definition version_segments :: "string \<Rightarrow> string \<times> string \<times> string \<times> string" where
  "version_segments s =
     (let b = strip_v s;
          r1 = dropWhile is_digit b;
          r2 = dropWhile is_digit (tl r1)
      in (takeWhile is_digit b, takeWhile is_digit (tl r1), takeWhile is_digit (tl r2),
          dropWhile is_digit (tl r2)))"

definition well_formed :: "string \<Rightarrow> bool" where
  "well_formed s =
     (case version_segments s of
        (d1, d2, d3, q) \<Rightarrow>
          d1 \<noteq> [] \<and> d2 \<noteq> [] \<and> d3 \<noteq> [] \<and>
          strip_v s = d1 @ ''.'' @ d2 @ ''.'' @ d3 @ q \<and> well_formed_tail q)"

text \<open>A numeric segment is canonical when it has no leading zero (it is \<open>0\<close> or does not
  start with \<open>0\<close>) and its value is below \<open>2 ^ 63\<close>.\<close>

definition dec_value :: "string \<Rightarrow> nat" where
  "dec_value d = foldl (\<lambda>n c. n * 10 + (of_char c - 48)) 0 d"

definition canonical_numeral :: "string \<Rightarrow> bool" where
  "canonical_numeral d = ((d = ''0'' \<or> hd d \<noteq> CHR ''0'') \<and> dec_value d < 2 ^ 63)"

definition canonical_numerals :: "string \<Rightarrow> bool" where
  "canonical_numerals s =
     (case version_segments s of
        (d1, d2, d3, q) \<Rightarrow> canonical_numeral d1 \<and> canonical_numeral d2 \<and> canonical_numeral d3)"

section \<open>Bump\<close>

lemma sint_succ:
  fixes x :: go_int
  assumes "sint x \<noteq> 2 ^ 63 - 1"
  shows "sint (x + 1) = sint x + 1"
proof -
  have "sint x < 2 ^ 63" using sint_lt[of x] by simp
  with assms have up: "sint x + 1 < 2 ^ 63" by simp
  have lo: "- (2 ^ 63) \<le> sint x + 1" using sint_ge[of x] by simp
  have "sint (x + 1) = signed_take_bit 63 (sint x + 1)"
    by (simp add: sint_word_ariths)
  also have "\<dots> = sint x + 1"
    using lo up by (simp add: signed_take_bit_int_eq_self)
  finally show ?thesis .
qed

text \<open>
  C2. Whatever the version and the kind of bump, \<open>bump\<close> leaves \<open>prerelease\<close> and \<open>build\<close>
  empty. A patch bump adds one to \<open>patch\<close> and keeps \<open>major\<close> and \<open>minor\<close>; a minor bump
  adds one to \<open>minor\<close>, sets \<open>patch\<close> to 0 and keeps \<open>major\<close>; a major bump adds one to
  \<open>major\<close> and sets \<open>minor\<close> and \<open>patch\<close> to 0. The addition is the one of Go's \<open>++\<close> on
  \<open>int\<close>; read as an integer the field grows by exactly one unless it held the largest
  \<open>int\<close>.
\<close>

theorem bump_spec:
  "prerelease (bump v sem) = [] \<and> build (bump v sem) = [] \<and>
   bump patch_version sem =
     \<lparr>major = major sem, minor = minor sem, patch = patch sem + 1, prerelease = [], build = []\<rparr> \<and>
   bump minor_version sem =
     \<lparr>major = major sem, minor = minor sem + 1, patch = 0, prerelease = [], build = []\<rparr> \<and>
   bump major_version sem =
     \<lparr>major = major sem + 1, minor = 0, patch = 0, prerelease = [], build = []\<rparr> \<and>
   (sint (patch sem) \<noteq> 2 ^ 63 - 1 \<longrightarrow> sint (patch (bump patch_version sem)) = sint (patch sem) + 1) \<and>
   (sint (minor sem) \<noteq> 2 ^ 63 - 1 \<longrightarrow> sint (minor (bump minor_version sem)) = sint (minor sem) + 1) \<and>
   (sint (major sem) \<noteq> 2 ^ 63 - 1 \<longrightarrow> sint (major (bump major_version sem)) = sint (major sem) + 1)"
  by (simp add: bump_def patch_version_def minor_version_def major_version_def Let_def sint_succ)

theorem bump_spec_witness:
  "bump patch_version \<lparr>major = 0, minor = 0, patch = 1, prerelease = ''alpha'', build = ''1a2b3c4''\<rparr>
     = \<lparr>major = 0, minor = 0, patch = 2, prerelease = [], build = []\<rparr> \<and>
   sint (patch (bump patch_version
     \<lparr>major = 0, minor = 0, patch = 1, prerelease = ''alpha'', build = ''1a2b3c4''\<rparr>)) = 2 \<and>
   sint (minor (bump minor_version
     \<lparr>major = 0, minor = 0, patch = 1, prerelease = ''alpha'', build = ''1a2b3c4''\<rparr>)) = 1 \<and>
   sint (major (bump major_version
     \<lparr>major = 0, minor = 0, patch = 1, prerelease = ''alpha'', build = ''1a2b3c4''\<rparr>)) = 1"
  using bump_spec [of patch_version
    "\<lparr>major = 0, minor = 0, patch = 1, prerelease = ''alpha'', build = ''1a2b3c4''\<rparr>"]
  by simp

section \<open>Where parseSemver panics\<close>

lemma scan_tail_nonnil:
  "buf \<noteq> NilBuf \<Longrightarrow> \<exists>p' b'. scan_tail rs buf p b = Some (p', b')"
  by (induction rs buf p b rule: scan_tail.induct) (auto split: bufptr.splits)

lemma scan_tail_sign_first:
  "r = 45 \<or> r = 43 \<Longrightarrow> scan_tail (r # rs) buf p b \<noteq> None"
  using scan_tail_nonnil[of PreBuf rs p b] scan_tail_nonnil[of BuildBuf rs p b] by auto

lemma runes_hd_ascii:
  "tail \<noteq> [] \<Longrightarrow> (of_char (hd tail) :: nat) < 128 \<Longrightarrow> \<exists>rs. runes tail = of_char (hd tail) # rs"
  by (cases tail) auto

text \<open>
  C10. \<open>parseSemver\<close> reads \<open>s[0]\<close> before any check of the length: on the empty string it
  panics, so it neither succeeds nor returns an error there. The empty string is the
  only input on which it panics: the tail is scanned only when it starts with \<open>-\<close> or
  \<open>+\<close>, which sets \<open>buf\<close> before the first append.
\<close>

theorem parseSemver_panics_iff: "parseSemver s = Panic \<longleftrightarrow> s = []"
proof
  assume "s = []"
  then show "parseSemver s = Panic" by (simp add: parseSemver_def)
next
  assume P: "parseSemver s = Panic"
  show "s = []"
  proof (rule ccontr)
    assume ne: "s \<noteq> []"
    define b where "b = (if hd s = CHR ''v'' then tl s else s)"
    from P ne obtain sem tail where
      t: "tail \<noteq> []" "hd tail = CHR ''-'' \<or> hd tail = CHR ''+''"
      and sc: "scan_tail (runes tail) NilBuf [] [] = None"
      by (auto simp: parseSemver_def b_def Let_def
               split: sum.splits if_splits option.splits prod.splits)
    from t obtain rs where "runes tail = of_char (hd tail) # rs"
      using runes_hd_ascii[of tail] by auto
    with t sc show False
      using scan_tail_sign_first[of "of_char (hd tail)" rs NilBuf "[]" "[]"] by auto
  qed
qed

theorem parseSemver_panics_iff_witness:
  "parseSemver [] = Panic \<and> parseSemver ''v'' \<noteq> Panic"
  using parseSemver_panics_iff [of "[]"] parseSemver_panics_iff [of "''v''"] by simp

section \<open>The calls of the external tool\<close>

lemma hd_Split: "hd (Split s c) = takeWhile (\<lambda>x. x \<noteq> c) s"
proof (cases "c \<in> set s")
  case True
  then have "count_list s c \<noteq> 0" by (simp add: count_list_0_iff)
  then obtain k where "count_list s c = Suc k" by (cases "count_list s c") auto
  with True show ?thesis by (simp add: Split_def)
next
  case False
  then have c0: "count_list s c = 0" by (simp add: count_list_0_iff)
  from False have tw: "takeWhile (\<lambda>x. x \<noteq> c) s = s"
    unfolding takeWhile_eq_all_conv by blast
  show ?thesis unfolding Split_def c0 tw by simp
qed

text \<open>
  C3, as the code has it. A call through \<open>git\<close> (which serves the latest tag, the
  current hash and the archive) whose run fails returns \<open>errors.New\<close> of the text of
  the standard error up to its first newline, and so does \<open>gitshortlog\<close> once its
  temporary file exists. \<open>gittag\<close> runs attached to the terminal and returns the
  error of \<open>cmd.Run()\<close> itself.
\<close>

theorem external_failure_message:
  "(run_err (git_run w a) \<noteq> None \<longrightarrow>
      git a w = Inl (ErrorString (takeWhile (\<lambda>c. c \<noteq> CHR 0x0A) (errout (git_run w a))))) \<and>
   (changelog_temp w = Inr f \<and> run_err (git_run w [''shortlog'', r]) \<noteq> None \<longrightarrow>
      gitshortlog r w =
        Inl (ErrorString (takeWhile (\<lambda>c. c \<noteq> CHR 0x0A) (errout (git_run w [''shortlog'', r]))))) \<and>
   gittag tag tagfile w = run_err (git_run w [''tag'', ''-a'', tag, ''-eF'', tagfile])"
  by (auto simp: git_def gitshortlog_def gittag_def hd_Split)

theorem external_failure_message_witness:
  "git [''archive'', ''-o'', ''v0.0.1.tar.gz'', ''v0.0.1''] no_repository_world
     = Inl (ErrorString ''fatal: not a git repository'') \<and>
   gitshortlog ''HEAD'' no_repository_world = Inl (ErrorString ''fatal: not a git repository'')"
  using external_failure_message [of no_repository_world
     "[''archive'', ''-o'', ''v0.0.1.tar.gz'', ''v0.0.1'']" "''/tmp/release-changelog-2''" "''HEAD''"]
  by (simp add: no_repository_world_def)

text \<open>
  C3 as stated fails for the creation of the tag: where \<open>git tag\<close> exits with status
  128, \<open>gittag\<close> returns that exit error ("exit status 128"), not an error made from
  the first line of the standard error.
\<close>

theorem gittag_error_counterexample:
  "run_err (git_run no_repository_world [''tag'', ''-a'', ''v0.0.1'', ''-eF'', ''/tmp/release-1''])
     = Some (ExitError 128) \<and>
   gittag ''v0.0.1'' ''/tmp/release-1'' no_repository_world = Some (ExitError 128) \<and>
   ExitError 128 \<noteq> ErrorString (hd (Split (errout (git_run no_repository_world
      [''tag'', ''-a'', ''v0.0.1'', ''-eF'', ''/tmp/release-1''])) (CHR 0x0A)))"
  by (simp add: gittag_def no_repository_world_def)

section \<open>Resolving the version\<close>

lemma show_nat_digit: "n < 10 \<Longrightarrow> show_nat n = [char_of (48 + n)]"
  by (simp add: show_nat.simps)

lemma String_v001:
  "String \<lparr>major = 0, minor = 0, patch = 1, prerelease = [], build = []\<rparr> = ''v0.0.1''"
  by (simp add: String_def show_int_def show_nat_digit char_of_eq_iff)

lemma resolve_first_patch:
  assumes "run_err (git_run w [''describe'', ''--abbrev=0'']) \<noteq> None"
  shows "resolve_version patch_version False [] w
           = Ok (\<lparr>major = 0, minor = 0, patch = 1, prerelease = [], build = []\<rparr>, ''HEAD'')"
proof -
  have "previous_version w = Ok (zero_semver, ''HEAD'')"
    using assms by (auto simp: previous_version_def git_def)
  then show ?thesis
    by (simp add: resolve_version_def bump_def zero_semver_def patch_version_def)
qed

lemma release_first_patch:
  assumes "run_err (git_run w [''describe'', ''--abbrev=0'']) \<noteq> None"
    and "notes_temp w = Inr f" and "EDITOR w \<noteq> []" and "editor_run w = None"
    and "scan_err w = None" and "changelog_temp w = Inr g"
    and "run_err (git_run w [''shortlog'', ''HEAD'']) = None"
    and "run_err (git_run w [''tag'', ''-a'', ''v0.0.1'', ''-eF'', f]) = None"
    and "run_err (git_run w [''archive'', ''-o'', ''v0.0.1.tar.gz'', ''v0.0.1'']) = None"
  shows "release patch_version False [] w
           = Ok \<lparr>major = 0, minor = 0, patch = 1, prerelease = [], build = []\<rparr>"
  using assms(2-)
  by (simp add: release_def resolve_first_patch[OF assms(1)] String_v001 openInEditor_def
      gitshortlog_def gittag_def git_def)

text \<open>
  C4, as the code has it. \<open>release\<close> tests only \<open>err == nil\<close>: every failure of
  \<open>git describe\<close>, whatever its reason, gives the zero version and the range \<open>HEAD\<close>, and
  the resolution of the version goes on with the bump.
\<close>

theorem describe_failure_swallowed:
  assumes "run_err (git_run w [''describe'', ''--abbrev=0'']) \<noteq> None"
  shows "previous_version w = Ok (zero_semver, ''HEAD'') \<and>
         resolve_version next False pre w
           = Ok ((bump next zero_semver)\<lparr>prerelease := pre\<rparr>, ''HEAD'')"
  using assms by (auto simp: previous_version_def resolve_version_def git_def)

theorem describe_failure_swallowed_witness:
  "previous_version no_repository_world = Ok (zero_semver, ''HEAD'') \<and>
   resolve_version major_version False ''rc1'' no_repository_world
     = Ok (\<lparr>major = 1, minor = 0, patch = 0, prerelease = ''rc1'', build = []\<rparr>, ''HEAD'')"
  using describe_failure_swallowed [of no_repository_world major_version "''rc1''"]
  by (simp add: no_repository_world_def bump_def zero_semver_def major_version_def
      minor_version_def patch_version_def)

text \<open>
  C4 as stated fails: where \<open>git describe\<close> fails for want of memory, which is not the
  absence of a tag, the error is dropped, the version is resolved to \<open>0.0.1\<close> with the
  range \<open>HEAD\<close> as for a first release, and \<open>release\<close> runs to its end.
\<close>

theorem other_describe_failure_counterexample:
  "git [''describe'', ''--abbrev=0''] out_of_memory_world
     = Inl (ErrorString ''fatal: Out of memory, malloc failed'') \<and>
   resolve_version patch_version False [] out_of_memory_world
     = Ok (\<lparr>major = 0, minor = 0, patch = 1, prerelease = [], build = []\<rparr>, ''HEAD'') \<and>
   release patch_version False [] out_of_memory_world
     = Ok \<lparr>major = 0, minor = 0, patch = 1, prerelease = [], build = []\<rparr>"
proof -
  have d: "run_err (git_run out_of_memory_world [''describe'', ''--abbrev=0'']) \<noteq> None"
    by (simp add: out_of_memory_world_def)
  have g: "git [''describe'', ''--abbrev=0''] out_of_memory_world
     = Inl (ErrorString ''fatal: Out of memory, malloc failed'')"
    by (simp add: git_def hd_Split out_of_memory_world_def)
  have "release patch_version False [] out_of_memory_world
     = Ok \<lparr>major = 0, minor = 0, patch = 1, prerelease = [], build = []\<rparr>"
    by (rule release_first_patch[OF d, of "''/tmp/release-1''" "''/tmp/release-changelog-2''"])
       (simp_all add: out_of_memory_world_def first_release_world_def)
  with g resolve_first_patch[OF d] show ?thesis by simp
qed

text \<open>
  C7. When \<open>git describe\<close> fails (no tag yet), the previous version is the zero
  version and the range of the changelog is \<open>HEAD\<close>; a patch bump without prerelease
  and without build metadata resolves to \<open>0.0.1\<close>, rendered \<open>v0.0.1\<close>, and \<open>release\<close>
  returns that version when the notes, the changelog, the tag and the archive succeed.
\<close>

theorem first_release_default:
  assumes "run_err (git_run w [''describe'', ''--abbrev=0'']) \<noteq> None"
  shows "previous_version w = Ok (zero_semver, ''HEAD'') \<and>
         resolve_version patch_version False [] w
           = Ok (\<lparr>major = 0, minor = 0, patch = 1, prerelease = [], build = []\<rparr>, ''HEAD'') \<and>
         String \<lparr>major = 0, minor = 0, patch = 1, prerelease = [], build = []\<rparr> = ''v0.0.1'' \<and>
         (notes_temp w = Inr f \<and> EDITOR w \<noteq> [] \<and> editor_run w = None \<and> scan_err w = None \<and>
          changelog_temp w = Inr g \<and> run_err (git_run w [''shortlog'', ''HEAD'']) = None \<and>
          run_err (git_run w [''tag'', ''-a'', ''v0.0.1'', ''-eF'', f]) = None \<and>
          run_err (git_run w [''archive'', ''-o'', ''v0.0.1.tar.gz'', ''v0.0.1'']) = None \<longrightarrow>
          release patch_version False [] w
            = Ok \<lparr>major = 0, minor = 0, patch = 1, prerelease = [], build = []\<rparr>)"
proof -
  have pv: "previous_version w = Ok (zero_semver, ''HEAD'')"
    using assms by (auto simp: previous_version_def git_def)
  show ?thesis
    using pv resolve_first_patch[OF assms] String_v001 release_first_patch[OF assms, of f g]
    by blast
qed

theorem first_release_default_witness:
  "resolve_version patch_version False [] first_release_world
     = Ok (\<lparr>major = 0, minor = 0, patch = 1, prerelease = [], build = []\<rparr>, ''HEAD'') \<and>
   release patch_version False [] first_release_world
     = Ok \<lparr>major = 0, minor = 0, patch = 1, prerelease = [], build = []\<rparr>"
  using first_release_default [of first_release_world "''/tmp/release-1''"
     "''/tmp/release-changelog-2''"]
  by (simp add: first_release_world_def describe_failure_def)


section \<open>The notes\<close>

lemma notes_loop_filter:
  "notes_loop ls buf =
     buf @ concat (map (\<lambda>l. l @ [CHR 0x0A]) (filter (\<lambda>l. \<not> (l \<noteq> [] \<and> hd l = CHR ''#'')) ls))"
  by (induction ls buf rule: notes_loop.induct) (auto simp: hd_conv_nth)

lemma count_list_append: "count_list (xs @ ys) c = count_list xs c + count_list ys c"
  by (induction xs) auto

lemma count_list_lines:
  "\<forall>l \<in> set ks. c \<notin> set l \<Longrightarrow> count_list (concat (map (\<lambda>l. l @ [c]) ks)) c = length ks"
  by (induction ks) (auto simp: count_list_append count_list_0_iff)

lemma takeWhile_sep: "c \<notin> set k \<Longrightarrow> takeWhile (\<lambda>x. x \<noteq> c) (k @ c # r) = k"
  by (induction k) auto

lemma dropWhile_sep: "c \<notin> set k \<Longrightarrow> dropWhile (\<lambda>x. x \<noteq> c) (k @ c # r) = c # r"
  by (induction k) auto

lemma SplitN_lines:
  "\<forall>l \<in> set ks. c \<notin> set l \<Longrightarrow>
     SplitN (concat (map (\<lambda>l. l @ [c]) ks)) c (Suc (length ks)) = ks @ [[]]"
proof (induction ks)
  case Nil
  then show ?case by simp
next
  case (Cons k ks)
  then have k: "c \<notin> set k" by simp
  have tw: "takeWhile (\<lambda>x. x \<noteq> c) (k @ c # concat (map (\<lambda>l. l @ [c]) ks)) = k"
    using k by (rule takeWhile_sep)
  have dw: "dropWhile (\<lambda>x. x \<noteq> c) (k @ c # concat (map (\<lambda>l. l @ [c]) ks))
              = c # concat (map (\<lambda>l. l @ [c]) ks)"
    using k by (rule dropWhile_sep)
  show ?case using Cons tw dw by simp
qed

text \<open>
  C8. Let the scanner yield the lines \<open>ls\<close> (a line of the scanner holds no newline).
  The text collected in \<open>buf\<close> is the lines of \<open>ls\<close> that do not start with \<open>#\<close>, empty
  lines included, in their order, each followed by a newline: cut at its newlines
  (\<open>strings.Split\<close>, which sees one more, empty piece after the last newline) it gives
  back exactly those lines, and none of its lines starts with \<open>#\<close>.
\<close>

theorem notes_comment_stripping:
  assumes "\<forall>l \<in> set ls. CHR 0x0A \<notin> set l"
  shows "Split (notes_loop ls []) (CHR 0x0A)
           = filter (\<lambda>l. \<not> (l \<noteq> [] \<and> hd l = CHR ''#'')) ls @ [[]] \<and>
         (\<forall>l \<in> set (Split (notes_loop ls []) (CHR 0x0A)). \<not> (l \<noteq> [] \<and> hd l = CHR ''#'')) \<and>
         notes_loop ls []
           = concat (map (\<lambda>l. l @ [CHR 0x0A]) (filter (\<lambda>l. \<not> (l \<noteq> [] \<and> hd l = CHR ''#'')) ls))"
proof -
  let ?ks = "filter (\<lambda>l. \<not> (l \<noteq> [] \<and> hd l = CHR ''#'')) ls"
  have nl: "\<forall>l \<in> set ?ks. CHR 0x0A \<notin> set l" using assms by simp
  have "Split (notes_loop ls []) (CHR 0x0A) = ?ks @ [[]]"
    unfolding Split_def notes_loop_filter
    using count_list_lines[OF nl] SplitN_lines[OF nl] by simp
  then show ?thesis by (auto simp: notes_loop_filter)
qed

theorem notes_comment_stripping_witness:
  "Split (notes_loop [''# Enter notes'', ''First release.'', [], ''#hidden'', '' # kept''] [])
     (CHR 0x0A) = [''First release.'', [], '' # kept'', []]"
  using notes_comment_stripping
    [of "[''# Enter notes'', ''First release.'', [], ''#hidden'', '' # kept'']"]
  by simp

section \<open>The fields that parseSemver fills\<close>

lemma SplitN3_none: "c \<notin> set b \<Longrightarrow> SplitN b c 3 = [b]"
  by (simp add: numeral_3_eq_3)

lemma SplitN3_one:
  "c \<in> set b \<Longrightarrow> c \<notin> set (tl (dropWhile (\<lambda>x. x \<noteq> c) b)) \<Longrightarrow>
   SplitN b c 3 = [takeWhile (\<lambda>x. x \<noteq> c) b, tl (dropWhile (\<lambda>x. x \<noteq> c) b)]"
  by (simp add: numeral_3_eq_3)

lemma SplitN3_two:
  "c \<in> set b \<Longrightarrow> c \<in> set (tl (dropWhile (\<lambda>x. x \<noteq> c) b)) \<Longrightarrow>
   SplitN b c 3 = [takeWhile (\<lambda>x. x \<noteq> c) b,
                   takeWhile (\<lambda>x. x \<noteq> c) (tl (dropWhile (\<lambda>x. x \<noteq> c) b)),
                   tl (dropWhile (\<lambda>x. x \<noteq> c) (tl (dropWhile (\<lambda>x. x \<noteq> c) b)))]"
  by (simp add: numeral_3_eq_3)

lemma count_list_split:
  "c \<in> set b \<Longrightarrow> count_list b c = Suc (count_list (tl (dropWhile (\<lambda>x. x \<noteq> c) b)) c)"
  by (induction b) auto

lemma parse_parts_1:
  "parse_parts 0 [a] z [] =
     (case ParseInt a of Inl e \<Rightarrow> Inl e | Inr m \<Rightarrow> Inr (z\<lparr>major := m\<rparr>, []))"
  by (simp split: sum.splits)

lemma parse_parts_2:
  "parse_parts 0 [a, b] z [] =
     (case ParseInt a of Inl e \<Rightarrow> Inl e
      | Inr m \<Rightarrow> (case ParseInt b of Inl e \<Rightarrow> Inl e
                  | Inr n \<Rightarrow> Inr (z\<lparr>major := m, minor := n\<rparr>, [])))"
  by (simp split: sum.splits)

lemma dropWhile_all: "list_all P xs \<Longrightarrow> dropWhile P xs = []"
  by (induction xs) auto

lemma parse_parts_3:
  "parse_parts 0 [a, b, c] z [] =
     (case ParseInt a of Inl e \<Rightarrow> Inl e
      | Inr m \<Rightarrow> (case ParseInt b of Inl e \<Rightarrow> Inl e
                  | Inr n \<Rightarrow> (case ParseInt (takeWhile is_digit c) of Inl e \<Rightarrow> Inl e
                              | Inr k \<Rightarrow> Inr (z\<lparr>major := m, minor := n, patch := k\<rparr>,
                                              dropWhile is_digit c))))"
  by (simp add: dropWhile_all split: sum.splits)

lemma sint_of_nat_small:
  assumes "n < 2 ^ 63"
  shows "sint (of_nat n :: go_int) = int n"
proof -
  have "int n < 2 ^ 63" using assms by simp
  then show ?thesis
    by (simp add: signed_of_nat signed_take_bit_int_eq_self)
qed

lemma ParseInt_nonneg:
  assumes "ParseInt p = Inr n" and "hd p \<noteq> CHR ''-''"
  shows "0 \<le> sint n"
  using assms
  by (auto simp: ParseInt_def Let_def sint_of_nat_small split: if_splits sum.splits num_err.splits)

lemma ParseInt_neg:
  assumes "ParseInt p = Inr n" and "sint n < 0"
  shows "hd p = CHR ''-''"
proof (rule ccontr)
  assume "hd p \<noteq> CHR ''-''"
  then have "0 \<le> sint n" using assms(1) by (rule ParseInt_nonneg[rotated])
  with assms(2) show False by simp
qed

lemma ParseInt_nonempty: "ParseInt p = Inr n \<Longrightarrow> p \<noteq> []"
  by (auto simp: ParseInt_def)

lemma hd_takeWhile_nonempty: "takeWhile P xs \<noteq> [] \<Longrightarrow> hd (takeWhile P xs) = hd xs \<and> P (hd xs)"
  by (cases xs) (auto split: if_splits)

lemma parseSemver_fields:
  assumes "parseSemver s = Ok sem"
  obtains sem' tail where
    "s \<noteq> []"
    "parse_parts 0 (SplitN (if hd s = CHR ''v'' then tl s else s) CHR ''.'' 3) zero_semver []
       = Inr (sem', tail)"
    "major sem = major sem'" "minor sem = minor sem'" "patch sem = patch sem'"
  using assms
  by (auto simp: parseSemver_def Let_def split: if_splits sum.splits option.splits prod.splits)

text \<open>
  C5, as the code has it. On success \<open>patch\<close> is never negative: it is 0 when the input
  has no third segment, and otherwise the value of a string of digits. \<open>major\<close> and
  \<open>minor\<close> come from \<open>strconv.ParseInt\<close>, which accepts a sign: each of them is negative
  only if its segment starts with \<open>-\<close>.
\<close>

theorem parseSemver_field_signs:
  assumes "parseSemver s = Ok sem"
  shows "0 \<le> sint (patch sem) \<and>
         (sint (major sem) < 0 \<longrightarrow> hd (if hd s = CHR ''v'' then tl s else s) = CHR ''-'') \<and>
         (sint (minor sem) < 0 \<longrightarrow>
            hd (tl (dropWhile (\<lambda>c. c \<noteq> CHR ''.'') (if hd s = CHR ''v'' then tl s else s)))
              = CHR ''-'')"
proof -
  define b where "b = (if hd s = CHR ''v'' then tl s else s)"
  define r where "r = tl (dropWhile (\<lambda>c. c \<noteq> CHR ''.'') b)"
  from assms obtain sem' tail where
    pp: "parse_parts 0 (SplitN b CHR ''.'' 3) zero_semver [] = Inr (sem', tail)"
    and f: "major sem = major sem'" "minor sem = minor sem'" "patch sem = patch sem'"
    unfolding b_def by (rule parseSemver_fields)
  consider (none) "CHR ''.'' \<notin> set b"
    | (one) "CHR ''.'' \<in> set b" "CHR ''.'' \<notin> set r"
    | (two) "CHR ''.'' \<in> set b" "CHR ''.'' \<in> set r"
    by blast
  then have "0 \<le> sint (patch sem') \<and> (sint (major sem') < 0 \<longrightarrow> hd b = CHR ''-'') \<and>
             (sint (minor sem') < 0 \<longrightarrow> hd r = CHR ''-'')"
  proof cases
    case none
    with pp obtain m where m: "ParseInt b = Inr m" and s': "sem' = zero_semver\<lparr>major := m\<rparr>"
      by (auto simp: SplitN3_none parse_parts_1 split: sum.splits)
    show ?thesis using ParseInt_neg[OF m] by (auto simp: s' zero_semver_def)
  next
    case one
    let ?a = "takeWhile (\<lambda>c. c \<noteq> CHR ''.'') b"
    from pp one obtain m n where m: "ParseInt ?a = Inr m" and n: "ParseInt r = Inr n"
      and s': "sem' = zero_semver\<lparr>major := m, minor := n\<rparr>"
      by (auto simp: SplitN3_one r_def parse_parts_2 split: sum.splits)
    have "hd ?a = hd b" using ParseInt_nonempty[OF m] hd_takeWhile_nonempty by blast
    then show ?thesis using ParseInt_neg[OF m] ParseInt_neg[OF n]
      by (auto simp: s' zero_semver_def)
  next
    case two
    let ?a = "takeWhile (\<lambda>c. c \<noteq> CHR ''.'') b"
    let ?b = "takeWhile (\<lambda>c. c \<noteq> CHR ''.'') r"
    let ?c = "tl (dropWhile (\<lambda>c. c \<noteq> CHR ''.'') r)"
    from pp two obtain m n k where m: "ParseInt ?a = Inr m" and n: "ParseInt ?b = Inr n"
      and k: "ParseInt (takeWhile is_digit ?c) = Inr k"
      and s': "sem' = zero_semver\<lparr>major := m, minor := n, patch := k\<rparr>"
      by (auto simp: SplitN3_two r_def parse_parts_3 split: sum.splits)
    have a: "hd ?a = hd b" using ParseInt_nonempty[OF m] hd_takeWhile_nonempty by blast
    have b: "hd ?b = hd r" using ParseInt_nonempty[OF n] hd_takeWhile_nonempty by blast
    have "is_digit (hd (takeWhile is_digit ?c))"
      using ParseInt_nonempty[OF k] hd_takeWhile_nonempty[of is_digit ?c] by simp
    then have c: "hd (takeWhile is_digit ?c) \<noteq> CHR ''-''"
      by (auto simp: is_digit_def)
    show ?thesis using ParseInt_neg[OF m] ParseInt_neg[OF n] ParseInt_nonneg[OF k c] a b
      by (auto simp: s' zero_semver_def)
  qed
  then show ?thesis using f by (simp add: b_def r_def)
qed

theorem parseSemver_field_signs_witness:
  "parseSemver ''-1.-2.3''
     = Ok \<lparr>major = - 1, minor = - 2, patch = 3, prerelease = [], build = []\<rparr> \<and>
   0 \<le> sint (patch \<lparr>major = - 1, minor = - 2, patch = 3, prerelease = [], build = []\<rparr>) \<and>
   hd ''-1.-2.3'' = CHR ''-'' \<and>
   hd (tl (dropWhile (\<lambda>c. c \<noteq> CHR ''.'') ''-1.-2.3'')) = CHR ''-''"
proof -
  have p: "parseSemver ''-1.-2.3''
             = Ok \<lparr>major = - 1, minor = - 2, patch = 3, prerelease = [], build = []\<rparr>"
    by (simp add: parseSemver_def numeral_3_eq_3 parse_parts_3 ParseInt_def ParseUint_def
        is_digit_def zero_semver_def)
  show ?thesis using p parseSemver_field_signs [OF p] by simp
qed

text \<open>
  C5 as stated fails: \<open>-1.2.3\<close> is parsed, with the major version \<open>-1\<close>.
\<close>

theorem negative_major_counterexample:
  "parseSemver ''-1.2.3'' = Ok \<lparr>major = - 1, minor = 2, patch = 3, prerelease = [], build = []\<rparr> \<and>
   sint (major \<lparr>major = - 1, minor = 2, patch = 3, prerelease = [], build = []\<rparr>) < 0"
  by (simp add: parseSemver_def numeral_3_eq_3 parse_parts_3 ParseInt_def ParseUint_def
      is_digit_def zero_semver_def)

text \<open>
  C6, as the code has it. The parts that \<open>SplitN\<close> returns are parsed one by one and
  their number is never checked. On a non-empty input with fewer than three segments
  (fewer than two dots, after the optional \<open>v\<close>) \<open>parseSemver\<close> succeeds whenever each
  segment present is accepted by \<open>strconv.ParseInt\<close>, the missing fields staying 0, and
  returns the error of \<open>ParseInt\<close> otherwise.
\<close>

theorem fewer_segments_accepted:
  assumes "s \<noteq> []"
    and "count_list (if hd s = CHR ''v'' then tl s else s) CHR ''.'' < 2"
  shows "parseSemver s =
     (let b = (if hd s = CHR ''v'' then tl s else s)
      in case ParseInt (takeWhile (\<lambda>c. c \<noteq> CHR ''.'') b) of
           Inl e \<Rightarrow> Err e
         | Inr m \<Rightarrow>
             if CHR ''.'' \<notin> set b then Ok (zero_semver\<lparr>major := m\<rparr>)
             else (case ParseInt (tl (dropWhile (\<lambda>c. c \<noteq> CHR ''.'') b)) of
                     Inl e \<Rightarrow> Err e
                   | Inr n \<Rightarrow> Ok (zero_semver\<lparr>major := m, minor := n\<rparr>)))"
proof -
  define b where "b = (if hd s = CHR ''v'' then tl s else s)"
  define r where "r = tl (dropWhile (\<lambda>c. c \<noteq> CHR ''.'') b)"
  show ?thesis
  proof (cases "CHR ''.'' \<in> set b")
    case False
    then have tw: "takeWhile (\<lambda>c. c \<noteq> CHR ''.'') b = b"
      unfolding takeWhile_eq_all_conv by blast
    show ?thesis using assms(1) False
      by (simp add: parseSemver_def Let_def b_def[symmetric] tw SplitN3_none parse_parts_1
               split: sum.splits)
  next
    case True
    with assms(2) have "CHR ''.'' \<notin> set r"
      using count_list_split[OF True] by (simp add: b_def[symmetric] r_def count_list_0_iff)
    then show ?thesis using assms(1) True
      by (simp add: parseSemver_def Let_def b_def[symmetric] r_def[symmetric]
               SplitN3_one[OF True, folded r_def] parse_parts_2 split: sum.splits)
  qed
qed

theorem fewer_segments_accepted_witness:
  "parseSemver ''1.2'' = Ok \<lparr>major = 1, minor = 2, patch = 0, prerelease = [], build = []\<rparr> \<and>
   parseSemver ''v7'' = Ok \<lparr>major = 7, minor = 0, patch = 0, prerelease = [], build = []\<rparr> \<and>
   parseSemver ''1.x'' = Err (NumError ''x'' ErrSyntax)"
  using fewer_segments_accepted [of "''1.2''"] fewer_segments_accepted [of "''v7''"]
    fewer_segments_accepted [of "''1.x''"]
  by (simp add: ParseInt_def ParseUint_def is_digit_def zero_semver_def)

text \<open>
  C6 as stated fails: \<open>1.2\<close> has two segments and is parsed, as \<open>1.2.0\<close>.
\<close>

theorem two_segments_counterexample:
  "count_list ''1.2'' CHR ''.'' + 1 < 3 \<and>
   parseSemver ''1.2'' = Ok \<lparr>major = 1, minor = 2, patch = 0, prerelease = [], build = []\<rparr>"
  by (simp add: parseSemver_def numeral_3_eq_3 ParseInt_def ParseUint_def is_digit_def zero_semver_def)

section \<open>Parsing and rendering\<close>

lemma is_digit_char_of: "(k::nat) < 10 \<Longrightarrow> is_digit (char_of (48 + k))"
  by (simp add: is_digit_def)

lemma show_nat_digits: "list_all is_digit (show_nat n)"
proof (induction n rule: show_nat.induct)
  case (1 n)
  show ?case
  proof (cases "n < 10")
    case True
    then show ?thesis by (simp add: show_nat.simps[of n] is_digit_char_of)
  next
    case False
    with 1 show ?thesis by (simp add: show_nat.simps[of n] is_digit_char_of)
  qed
qed

lemma show_nat_nonempty: "show_nat n \<noteq> []"
  by (simp add: show_nat.simps[of n])

lemma uint_loop_append:
  "uint_loop n (xs @ ys) = (case uint_loop n xs of Inl e \<Rightarrow> Inl e | Inr m \<Rightarrow> uint_loop m ys)"
  by (induction xs arbitrary: n) auto

lemma uint_loop_digit:
  "k < 10 \<Longrightarrow> m * 10 + k < 2 ^ 64 \<Longrightarrow> uint_loop m [char_of (48 + k)] = Inr (m * 10 + k)"
  by (simp add: is_digit_char_of)

lemma uint_loop_show_nat: "n < 2 ^ 64 \<Longrightarrow> uint_loop 0 (show_nat n) = Inr n"
proof (induction n rule: show_nat.induct)
  case (1 n)
  show ?case
  proof (cases "n < 10")
    case True
    then show ?thesis using uint_loop_digit[of n 0] "1.prems" by (simp add: show_nat.simps[of n])
  next
    case False
    have lt: "n div 10 < 2 ^ 64" using "1.prems" by simp
    have ih: "uint_loop 0 (show_nat (n div 10)) = Inr (n div 10)"
      using "1.IH"[OF False lt] .
    have step: "uint_loop (n div 10) [char_of (48 + n mod 10)] = Inr (n div 10 * 10 + n mod 10)"
      using "1.prems" by (intro uint_loop_digit) simp_all
    show ?thesis using False ih step
      by (simp add: show_nat.simps[of n] uint_loop_append del: uint_loop.simps)
  qed
qed

lemma digit_not_sign: "is_digit c \<Longrightarrow> c \<noteq> CHR ''-'' \<and> c \<noteq> CHR ''+'' \<and> c \<noteq> CHR ''.'' \<and> c \<noteq> CHR ''v''"
  by (auto simp: is_digit_def)

lemma hd_show_nat_digit: "is_digit (hd (show_nat n))"
  using show_nat_digits[of n] show_nat_nonempty[of n] by (cases "show_nat n") auto

lemma ParseInt_show_nat:
  assumes "n < 2 ^ 63"
  shows "ParseInt (show_nat n) = Inr (of_nat n)"
proof -
  have "n < 2 ^ 64" using assms by simp
  then have u: "ParseUint (show_nat n) = Inr n"
    by (simp add: ParseUint_def show_nat_nonempty uint_loop_show_nat)
  show ?thesis using u assms digit_not_sign[OF hd_show_nat_digit[of n]]
    by (simp add: ParseInt_def show_nat_nonempty)
qed

lemma dec_value_snoc: "dec_value (xs @ [c]) = dec_value xs * 10 + (of_char c - 48)"
  by (simp add: dec_value_def)

lemma foldl_dec_pos:
  "0 < n \<Longrightarrow> 0 < foldl (\<lambda>n c. n * 10 + ((of_char c :: nat) - 48)) n xs"
  by (induction xs arbitrary: n) auto

lemma dec_value_pos:
  assumes "xs \<noteq> []" "is_digit (hd xs)" "hd xs \<noteq> CHR ''0''"
  shows "0 < dec_value xs"
proof -
  obtain x ys where xs: "xs = x # ys" using assms(1) by (cases xs) auto
  have "(of_char x :: nat) \<noteq> of_char CHR ''0''" using assms(3) xs by (simp only: of_char_eq_iff) simp
  then have "0 < (of_char x :: nat) - 48" using assms(2) xs by (simp add: is_digit_def)
  then show ?thesis unfolding xs dec_value_def by (simp add: foldl_dec_pos)
qed

lemma char_of_digit: "is_digit c \<Longrightarrow> char_of (48 + ((of_char c :: nat) - 48)) = c"
  by (simp add: is_digit_def)

lemma digit_lt10: "is_digit c \<Longrightarrow> (of_char c :: nat) - 48 < 10"
  by (auto simp: is_digit_def)

lemma show_nat_dec_value:
  "d \<noteq> [] \<Longrightarrow> list_all is_digit d \<Longrightarrow> d = ''0'' \<or> hd d \<noteq> CHR ''0''
     \<Longrightarrow> show_nat (dec_value d) = d"
proof (induction d rule: rev_induct)
  case Nil
  then show ?case by simp
next
  case (snoc c xs)
  have c: "is_digit c" using snoc.prems(2) by simp
  show ?case
  proof (cases "xs = []")
    case True
    then show ?thesis using c digit_lt10[OF c] char_of_digit[OF c]
      by (simp add: dec_value_def show_nat.simps[of "of_char c - 48"])
  next
    case False
    then have hd: "hd xs \<noteq> CHR ''0''" using snoc.prems(3) by (cases xs) auto
    have dig: "list_all is_digit xs" using snoc.prems(2) by simp
    have ih: "show_nat (dec_value xs) = xs" using snoc.IH[OF False dig] hd by simp
    have "is_digit (hd xs)" using False dig by (cases xs) auto
    then have pos: "0 < dec_value xs" using dec_value_pos[OF False] hd by simp
    let ?v = "dec_value xs * 10 + ((of_char c :: nat) - 48)"
    have ge: "\<not> ?v < 10" using pos by simp
    have dv: "?v div 10 = dec_value xs" using digit_lt10[OF c] by simp
    have md: "?v mod 10 = (of_char c :: nat) - 48" using digit_lt10[OF c] by simp
    show ?thesis
      unfolding dec_value_snoc
      using ge dv md ih char_of_digit[OF c] by (simp add: show_nat.simps[of ?v])
  qed
qed

lemma show_int_sint:
  "n < 2 ^ 63 \<Longrightarrow> show_int (sint (of_nat n :: go_int)) = show_nat n"
  by (simp add: sint_of_nat_small show_int_def)

lemma SplitN3_three:
  assumes "c \<notin> set x" "c \<notin> set y"
  shows "SplitN (x @ c # y @ c # z) c 3 = [x, y, z]"
proof -
  have "c \<in> set (x @ c # y @ c # z)" by simp
  moreover have "tl (dropWhile (\<lambda>a. a \<noteq> c) (x @ c # y @ c # z)) = y @ c # z"
    using dropWhile_sep[OF assms(1)] by simp
  moreover have "takeWhile (\<lambda>a. a \<noteq> c) (x @ c # y @ c # z) = x"
    using takeWhile_sep[OF assms(1)] by simp
  moreover have "takeWhile (\<lambda>a. a \<noteq> c) (y @ c # z) = y"
    using takeWhile_sep[OF assms(2)] by simp
  moreover have "tl (dropWhile (\<lambda>a. a \<noteq> c) (y @ c # z)) = z"
    using dropWhile_sep[OF assms(2)] by simp
  ultimately show ?thesis by (simp add: numeral_3_eq_3)
qed

lemma runes_ascii: "list_all (\<lambda>c. (of_char c :: nat) < 128) s \<Longrightarrow> runes s = map of_char s"
  by (induction s) auto

lemma string_of_runes_ascii:
  "list_all (\<lambda>c. (of_char c :: nat) < 128) s \<Longrightarrow> string_of_runes (map of_char s) = s"
  by (induction s) (auto simp: string_of_runes_def)

lemma of_char_minus: "((of_char c :: nat) = 45) = (c = CHR ''-'')"
proof -
  have "((of_char c :: nat) = of_char CHR ''-'') = (c = CHR ''-'')" by (rule of_char_eq_iff)
  then show ?thesis by simp
qed

lemma of_char_plus: "((of_char c :: nat) = 43) = (c = CHR ''+'')"
proof -
  have "((of_char c :: nat) = of_char CHR ''+'') = (c = CHR ''+'')" by (rule of_char_eq_iff)
  then show ?thesis by simp
qed

lemma scan_tail_pre:
  "list_all (\<lambda>c. c \<noteq> CHR ''-'' \<and> c \<noteq> CHR ''+'') xs \<Longrightarrow>
   scan_tail (map of_char xs @ rest) PreBuf p b = scan_tail rest PreBuf (p @ map of_char xs) b"
  by (induction xs arbitrary: p) (auto simp: of_char_minus of_char_plus)

lemma scan_tail_build:
  "list_all (\<lambda>c. c \<noteq> CHR ''-'' \<and> c \<noteq> CHR ''+'') xs \<Longrightarrow>
   scan_tail (map of_char xs @ rest) BuildBuf p b = scan_tail rest BuildBuf p (b @ map of_char xs)"
  by (induction xs arbitrary: b) (auto simp: of_char_minus of_char_plus)

lemma qualifier_ascii: "qualifier x \<Longrightarrow> list_all (\<lambda>c. (of_char c :: nat) < 128) x"
  by (auto simp: qualifier_def list_all_iff)

lemma qualifier_no_sep: "qualifier x \<Longrightarrow> list_all (\<lambda>c. c \<noteq> CHR ''-'' \<and> c \<noteq> CHR ''+'') x"
  by (auto simp: qualifier_def list_all_iff)

lemma qualifier_nonempty: "qualifier x \<Longrightarrow> x \<noteq> []"
  by (simp add: qualifier_def)

lemma scan_minus_only:
  assumes "qualifier pre"
  shows "scan_tail (runes (CHR ''-'' # pre)) NilBuf [] [] = Some (map of_char pre, [])"
proof -
  have "runes (CHR ''-'' # pre) = 45 # map of_char pre"
    using runes_ascii[OF qualifier_ascii[OF assms]] by simp
  then show ?thesis
    using scan_tail_pre[OF qualifier_no_sep[OF assms], of "[]" "[]" "[]"] by simp
qed

lemma scan_plus_only:
  assumes "qualifier bld"
  shows "scan_tail (runes (CHR ''+'' # bld)) NilBuf [] [] = Some ([], map of_char bld)"
proof -
  have "runes (CHR ''+'' # bld) = 43 # map of_char bld"
    using runes_ascii[OF qualifier_ascii[OF assms]] by simp
  then show ?thesis
    using scan_tail_build[OF qualifier_no_sep[OF assms], of "[]" "[]" "[]"] by simp
qed

lemma scan_minus_plus:
  assumes "qualifier pre" "qualifier bld"
  shows "scan_tail (runes (CHR ''-'' # pre @ CHR ''+'' # bld)) NilBuf [] []
           = Some (map of_char pre, map of_char bld)"
proof -
  have "list_all (\<lambda>c. (of_char c :: nat) < 128) (CHR ''-'' # pre @ CHR ''+'' # bld)"
    using qualifier_ascii[OF assms(1)] qualifier_ascii[OF assms(2)] by simp
  then have "runes (CHR ''-'' # pre @ CHR ''+'' # bld)
               = 45 # map of_char pre @ 43 # map of_char bld"
    by (simp add: runes_ascii)
  then show ?thesis
    using scan_tail_pre[OF qualifier_no_sep[OF assms(1)], of "43 # map of_char bld" "[]" "[]"]
      scan_tail_build[OF qualifier_no_sep[OF assms(2)], of "[]" "map of_char pre" "[]"]
    by simp
qed

lemma tail_round_trip:
  assumes "well_formed_tail q" "q \<noteq> []"
  obtains pre bld where
    "scan_tail (runes q) NilBuf [] [] = Some (map of_char pre, map of_char bld)"
    "list_all (\<lambda>c. (of_char c :: nat) < 128) pre"
    "list_all (\<lambda>c. (of_char c :: nat) < 128) bld"
    "hd q = CHR ''-'' \<or> hd q = CHR ''+''"
    "q = (if pre \<noteq> [] then CHR ''-'' # pre else []) @ (if bld \<noteq> [] then CHR ''+'' # bld else [])"
proof -
  let ?t = "tl q"
  let ?pre = "takeWhile (\<lambda>c. c \<noteq> CHR ''+'') ?t"
  let ?r = "dropWhile (\<lambda>c. c \<noteq> CHR ''+'') ?t"
  consider (minus) "hd q = CHR ''-''" "qualifier ?pre" "?r = []"
    | (both) "hd q = CHR ''-''" "qualifier ?pre" "?r \<noteq> []" "qualifier (tl ?r)"
    | (plus) "hd q = CHR ''+''" "qualifier ?t"
    using assms unfolding well_formed_tail_def by blast
  then show ?thesis
  proof cases
    case minus
    have "?t = ?pre @ ?r" by simp
    then have "?t = ?pre" unfolding minus(3) by (simp only: append_Nil2)
    with minus(1) assms(2) have q: "q = CHR ''-'' # ?pre" by (cases q) auto
    show ?thesis
    proof (rule that[of ?pre "[]"])
      show "scan_tail (runes q) NilBuf [] [] = Some (map of_char ?pre, map of_char [])"
        using scan_minus_only[OF minus(2)] q by simp
      show "q = (if ?pre \<noteq> [] then CHR ''-'' # ?pre else [])
                  @ (if [] \<noteq> ([]::string) then CHR ''+'' # [] else [])"
        using q qualifier_nonempty[OF minus(2)] by simp
    qed (use minus qualifier_ascii in auto)
  next
    case both
    have id: "?pre @ ?r = ?t" by (rule takeWhile_dropWhile_id)
    have "hd ?r = CHR ''+''" using hd_dropWhile[OF both(3)] by simp
    with both(3) have r: "?r = CHR ''+'' # tl ?r" by (cases ?r) auto
    from id r have "?t = ?pre @ CHR ''+'' # tl ?r" by simp
    with both(1) assms(2) have q: "q = CHR ''-'' # ?pre @ CHR ''+'' # tl ?r" by (cases q) auto
    show ?thesis
    proof (rule that[of ?pre "tl ?r"])
      show "scan_tail (runes q) NilBuf [] [] = Some (map of_char ?pre, map of_char (tl ?r))"
        using scan_minus_plus[OF both(2) both(4)] q by simp
      show "q = (if ?pre \<noteq> [] then CHR ''-'' # ?pre else [])
                  @ (if tl ?r \<noteq> [] then CHR ''+'' # tl ?r else [])"
        using q qualifier_nonempty[OF both(2)] qualifier_nonempty[OF both(4)] by simp
    qed (use both qualifier_ascii in auto)
  next
    case plus
    with assms(2) have q: "q = CHR ''+'' # ?t" by (cases q) auto
    show ?thesis
    proof (rule that[of "[]" ?t])
      show "scan_tail (runes q) NilBuf [] [] = Some (map of_char [], map of_char ?t)"
        using scan_plus_only[OF plus(2)] q by simp
      show "q = (if [] \<noteq> ([]::string) then CHR ''-'' # [] else [])
                  @ (if ?t \<noteq> [] then CHR ''+'' # ?t else [])"
        using q qualifier_nonempty[OF plus(2)] by simp
    qed (use plus qualifier_ascii in auto)
  qed
qed

lemma String_render:
  assumes "a < 2 ^ 63" "b < 2 ^ 63" "c < 2 ^ 63"
  shows "String \<lparr>major = of_nat a, minor = of_nat b, patch = of_nat c,
                  prerelease = pre, build = bld\<rparr>
           = CHR ''v'' # show_nat a @ ''.'' @ show_nat b @ ''.'' @ show_nat c
               @ (if pre \<noteq> [] then CHR ''-'' # pre else [])
               @ (if bld \<noteq> [] then CHR ''+'' # bld else [])"
  using assms by (simp add: String_def show_int_sint Let_def)

lemma digits_no_dot: "list_all is_digit d \<Longrightarrow> CHR ''.'' \<notin> set d"
  using digit_not_sign by (auto simp: list_all_iff)

lemma list_all_takeWhile: "list_all P (takeWhile P xs)"
  by (induction xs) auto

lemma ParseInt_canonical:
  assumes "d \<noteq> []" "list_all is_digit d" "canonical_numeral d"
  shows "ParseInt d = Inr (of_nat (dec_value d))" "show_nat (dec_value d) = d"
    "dec_value d < 2 ^ 63"
proof -
  from assms(3) have z: "d = ''0'' \<or> hd d \<noteq> CHR ''0''" and lt: "dec_value d < 2 ^ 63"
    by (simp_all add: canonical_numeral_def)
  show sh: "show_nat (dec_value d) = d" using show_nat_dec_value[OF assms(1,2) z] .
  show "dec_value d < 2 ^ 63" by (rule lt)
  show "ParseInt d = Inr (of_nat (dec_value d))" using ParseInt_show_nat[OF lt] sh by simp
qed

text \<open>
  C1, as the code has it. Let \<open>s\<close> be a well-formed version string whose three numeric
  segments are canonical: without leading zero and below \<open>2 ^ 63\<close>. Then \<open>parseSemver\<close>
  succeeds on \<open>s\<close> and \<open>String\<close> of the result is the \<open>v\<close>-prefixed form of \<open>s\<close>.
\<close>

theorem parse_render_round_trip:
  assumes wf: "well_formed s" and cn: "canonical_numerals s"
  shows "\<exists>sem. parseSemver s = Ok sem \<and> String sem = canonical_form s"
proof -
  define b where "b = strip_v s"
  define r1 where "r1 = dropWhile is_digit b"
  define r2 where "r2 = dropWhile is_digit (tl r1)"
  define d1 where "d1 = takeWhile is_digit b"
  define d2 where "d2 = takeWhile is_digit (tl r1)"
  define d3 where "d3 = takeWhile is_digit (tl r2)"
  define q where "q = dropWhile is_digit (tl r2)"
  have seg: "version_segments s = (d1, d2, d3, q)"
    by (simp add: version_segments_def Let_def b_def r1_def r2_def d1_def d2_def d3_def q_def)
  from wf seg have ne: "d1 \<noteq> []" "d2 \<noteq> []" "d3 \<noteq> []"
    and beq: "b = d1 @ CHR ''.'' # d2 @ CHR ''.'' # d3 @ q"
    and wt: "well_formed_tail q"
    by (simp_all add: well_formed_def b_def)
  from cn seg have can: "canonical_numeral d1" "canonical_numeral d2" "canonical_numeral d3"
    by (simp_all add: canonical_numerals_def)
  have dig: "list_all is_digit d1" "list_all is_digit d2" "list_all is_digit d3"
    by (simp_all add: d1_def d2_def d3_def list_all_takeWhile)
  have third: "takeWhile is_digit (d3 @ q) = d3" "dropWhile is_digit (d3 @ q) = q"
    by (simp_all add: d3_def q_def)
  let ?a = "dec_value d1" and ?b = "dec_value d2" and ?c = "dec_value d3"
  note p1 = ParseInt_canonical[OF ne(1) dig(1) can(1)]
  note p2 = ParseInt_canonical[OF ne(2) dig(2) can(2)]
  note p3 = ParseInt_canonical[OF ne(3) dig(3) can(3)]
  have split: "SplitN b CHR ''.'' 3 = [d1, d2, d3 @ q]"
    unfolding beq using digits_no_dot[OF dig(1)] digits_no_dot[OF dig(2)]
    by (rule SplitN3_three)
  have parts: "parse_parts 0 (SplitN b CHR ''.'' 3) zero_semver []
      = Inr (\<lparr>major = of_nat ?a, minor = of_nat ?b, patch = of_nat ?c,
                prerelease = [], build = []\<rparr>, q)"
    unfolding split parse_parts_3 by (simp add: p1(1) p2(1) third p3(1) zero_semver_def)
  have sne: "s \<noteq> []" using beq ne(1) by (auto simp: b_def strip_v_def)
  then have bb: "(if hd s = CHR ''v'' then tl s else s) = b" by (simp add: b_def strip_v_def)
  have canon: "canonical_form s = CHR ''v'' # d1 @ CHR ''.'' # d2 @ CHR ''.'' # d3 @ q"
    using beq by (simp add: canonical_form_def b_def)
  show ?thesis
  proof (cases "q = []")
    case True
    have "parseSemver s = Ok \<lparr>major = of_nat ?a, minor = of_nat ?b, patch = of_nat ?c,
                prerelease = [], build = []\<rparr>"
      using sne True by (simp add: parseSemver_def bb parts)
    moreover have "String \<lparr>major = of_nat ?a, minor = of_nat ?b, patch = of_nat ?c,
                prerelease = [], build = []\<rparr> = canonical_form s"
      unfolding canon String_render[OF p1(3) p2(3) p3(3)] using True
      by (simp add: p1(2) p2(2) p3(2))
    ultimately show ?thesis by blast
  next
    case False
    from wt False obtain pre bld where
      sc: "scan_tail (runes q) NilBuf [] [] = Some (map of_char pre, map of_char bld)"
      and ap: "list_all (\<lambda>c. (of_char c :: nat) < 128) pre"
      and ab: "list_all (\<lambda>c. (of_char c :: nat) < 128) bld"
      and hq: "hd q = CHR ''-'' \<or> hd q = CHR ''+''"
      and qeq: "q = (if pre \<noteq> [] then CHR ''-'' # pre else [])
                      @ (if bld \<noteq> [] then CHR ''+'' # bld else [])"
      by (rule tail_round_trip)
    have "parseSemver s = Ok \<lparr>major = of_nat ?a, minor = of_nat ?b, patch = of_nat ?c,
                prerelease = pre, build = bld\<rparr>"
      using sne False hq
      by (auto simp: parseSemver_def bb parts sc string_of_runes_ascii[OF ap]
          string_of_runes_ascii[OF ab])
    moreover have "String \<lparr>major = of_nat ?a, minor = of_nat ?b, patch = of_nat ?c,
                prerelease = pre, build = bld\<rparr> = canonical_form s"
      unfolding canon String_render[OF p1(3) p2(3) p3(3)] using qeq
      by (simp add: p1(2) p2(2) p3(2))
    ultimately show ?thesis by blast
  qed
qed

theorem parse_render_round_trip_witness:
  "well_formed ''1.2.3-alpha+1a2b3c4'' \<and> canonical_numerals ''1.2.3-alpha+1a2b3c4'' \<and>
   (\<exists>sem. parseSemver ''1.2.3-alpha+1a2b3c4'' = Ok sem \<and> String sem = ''v1.2.3-alpha+1a2b3c4'')"
proof -
  have wf: "well_formed ''1.2.3-alpha+1a2b3c4''"
    by (simp add: well_formed_def version_segments_def strip_v_def is_digit_def
        well_formed_tail_def qualifier_def)
  have cn: "canonical_numerals ''1.2.3-alpha+1a2b3c4''"
    by (simp add: canonical_numerals_def version_segments_def strip_v_def is_digit_def
        canonical_numeral_def dec_value_def)
  show ?thesis
    using wf cn parse_render_round_trip [OF wf cn] by (simp add: canonical_form_def strip_v_def)
qed

text \<open>
  C1 as stated fails on numeric segments that are not canonical. \<open>v1.02.3\<close> is
  well-formed and is rendered back as \<open>v1.2.3\<close>: the numbers are kept as integers and
  a leading zero is lost. \<open>v9223372036854775808.0.0\<close> is well-formed and is not parsed
  at all: its first segment is beyond the range of \<open>int64\<close>.
\<close>

theorem round_trip_counterexample:
  "well_formed ''v1.02.3'' \<and>
   parseSemver ''v1.02.3'' = Ok \<lparr>major = 1, minor = 2, patch = 3, prerelease = [], build = []\<rparr> \<and>
   String \<lparr>major = 1, minor = 2, patch = 3, prerelease = [], build = []\<rparr> = ''v1.2.3'' \<and>
   canonical_form ''v1.02.3'' = ''v1.02.3'' \<and>
   well_formed ''v9223372036854775808.0.0'' \<and>
   parseSemver ''v9223372036854775808.0.0'' = Err (NumError ''9223372036854775808'' ErrRange)"
proof -
  have "well_formed ''v1.02.3''"
    by (simp add: well_formed_def version_segments_def strip_v_def is_digit_def
        well_formed_tail_def)
  moreover have "parseSemver ''v1.02.3''
      = Ok \<lparr>major = 1, minor = 2, patch = 3, prerelease = [], build = []\<rparr>"
    by (simp add: parseSemver_def numeral_3_eq_3 parse_parts_3 ParseInt_def ParseUint_def
        is_digit_def zero_semver_def)
  moreover have "String \<lparr>major = 1, minor = 2, patch = 3, prerelease = [], build = []\<rparr> = ''v1.2.3''"
    by (simp add: String_def show_int_def show_nat_digit char_of_eq_iff)
  moreover have "canonical_form ''v1.02.3'' = ''v1.02.3''"
    by (simp add: canonical_form_def strip_v_def)
  moreover have "well_formed ''v9223372036854775808.0.0''"
    by (simp add: well_formed_def version_segments_def strip_v_def is_digit_def
        well_formed_tail_def)
  moreover have "parseSemver ''v9223372036854775808.0.0''
      = Err (NumError ''9223372036854775808'' ErrRange)"
    by (simp add: parseSemver_def numeral_3_eq_3 ParseInt_def ParseUint_def
        is_digit_def zero_semver_def)
  ultimately show ?thesis by blast
qed

end
